theory Spec2Isabelle
  imports Complex_Main "HOL-Library.Stream"
begin

section \<open>The fog network generator of src/app/page.tsx\<close>

text \<open>
  The generator is the closure \<open>initializeNetwork\<close> of the React component
  \<open>FogNetworkSimulation\<close>, together with the class \<open>FogNodeImpl\<close> it instantiates.
  JavaScript numbers that hold coordinates, distances, thresholds and resource values are
  modelled as mathematical reals (rounding of IEEE doubles is not modelled); numbers that
  hold counts and array indices are modelled as \<open>nat\<close> or \<open>int\<close>: the input handlers
  produce \<open>numNodes\<close> and \<open>maxConnections\<close> with \<open>parseInt\<close>, and \<open>NaN\<close> is not modelled.
  The implicit global random source \<open>Math.random\<close> is made explicit as a stream of draws
  that is threaded through the code in evaluation order.
\<close>

subsection \<open>Data model\<close>

record NetworkParams =
  numNodes :: int
  proximityThreshold :: real
  maxConnections :: int
  resourceCapacity :: real

text \<open>
  The fields \<open>id\<close>, \<open>x\<close> and \<open>y\<close> of the interface \<open>FogNode\<close> are prefixed with
  \<open>node_\<close>, the fields \<open>from\<close>, \<open>to\<close> and \<open>length\<close> of \<open>Edge\<close> with \<open>edge_\<close>,
  because the plain names are taken by HOL or by Isar.
\<close>

record FogNode =
  node_id :: nat
  node_x :: real
  node_y :: real
  resources :: real
  connections :: "nat list"
  color :: string

record Edge =
  edge_from :: nat
  edge_to :: nat
  edge_length :: real

subsection \<open>The random source\<close>

type_synonym random_source = "real stream"

text \<open>One call of \<open>Math.random()\<close>: the next draw and the rest of the source.\<close>

definition Math_random :: "random_source \<Rightarrow> real \<times> random_source" where
  "Math_random rng = (shd rng, stl rng)"

text \<open>\<open>Math.random\<close> returns a number in the half-open interval from 0 to 1.\<close>

definition unit_draws :: "random_source \<Rightarrow> bool" where
  "unit_draws rng \<longleftrightarrow> (\<forall>u \<in> sset rng. 0 \<le> u \<and> u < 1)"

subsection \<open>Number to string conversion in the template literal\<close>

definition digit_char :: "nat \<Rightarrow> char" where
  "digit_char d = ''0123456789'' ! d"

fun show_nat :: "nat \<Rightarrow> string" where
  "show_nat n = (if n < 10 then [digit_char n] else show_nat (n div 10) @ [digit_char (n mod 10)])"

declare show_nat.simps [simp del]

definition show_int :: "int \<Rightarrow> string" where
  "show_int i = (if i < 0 then CHR ''-'' # show_nat (nat (- i)) else show_nat (nat i))"

subsection \<open>Class FogNodeImpl\<close>

text \<open>\<open>generateRandomColor\<close>: three draws, each scaled to 200 and floored.\<close>

definition generateRandomColor :: "random_source \<Rightarrow> string \<times> random_source" where
  "generateRandomColor rng =
     (let (u1, rng1) = Math_random rng;
          r = \<lfloor>u1 * 200\<rfloor>;
          (u2, rng2) = Math_random rng1;
          g = \<lfloor>u2 * 200\<rfloor>;
          (u3, rng3) = Math_random rng2;
          b = \<lfloor>u3 * 200\<rfloor>
      in (''rgb('' @ show_int r @ '', '' @ show_int g @ '', '' @ show_int b @ '')'', rng3))"

text \<open>
  The constructor: the field initialiser sets \<open>connections\<close> to the empty array, then the
  body stores its arguments, draws the resource value and then the colour.
\<close>

definition new_FogNodeImpl ::
  "NetworkParams \<Rightarrow> nat \<Rightarrow> real \<Rightarrow> real \<Rightarrow> random_source \<Rightarrow> FogNode \<times> random_source" where
  "new_FogNodeImpl p i xv yv rng =
     (let (u, rng1) = Math_random rng;
          (c, rng2) = generateRandomColor rng1
      in (\<lparr>node_id = i, node_x = xv, node_y = yv, resources = u * resourceCapacity p,
           connections = [], color = c\<rparr>, rng2))"

definition calculateProximity :: "FogNode \<Rightarrow> FogNode \<Rightarrow> real" where
  "calculateProximity this otherNode =
     sqrt ((node_x this - node_x otherNode)\<^sup>2 + (node_y this - node_y otherNode)\<^sup>2)"

subsection \<open>initializeNetwork\<close>

text \<open>
  \<open>Array.from({ length: n }, (_, i) => new FogNodeImpl(i, Math.random() * 400,
  Math.random() * 300))\<close>: the callback runs for the indices in ascending order; the two
  argument draws are evaluated left to right before the constructor body runs.
  \<open>Array_from p i k rng\<close> builds the \<open>k\<close> nodes with indices \<open>i, i + 1, ...\<close>.
\<close>

fun Array_from ::
  "NetworkParams \<Rightarrow> nat \<Rightarrow> nat \<Rightarrow> random_source \<Rightarrow> FogNode list \<times> random_source" where
  "Array_from p i 0 rng = ([], rng)"
| "Array_from p i (Suc k) rng =
     (let (u, rng1) = Math_random rng;
          (v, rng2) = Math_random rng1;
          (nd, rng3) = new_FogNodeImpl p i (u * 400) (v * 300) rng2;
          (rest, rng4) = Array_from p (Suc i) k rng3
      in (nd # rest, rng4))"

text \<open>
  The array length is \<open>ToLength(numNodes)\<close>, which is 0 for a negative number.
\<close>

definition newNodes :: "NetworkParams \<Rightarrow> random_source \<Rightarrow> FogNode list" where
  "newNodes p rng = fst (Array_from p 0 (nat (numNodes p)) rng)"

text \<open>
  The node objects are shared and mutated in place, so the array of nodes is the store and
  a reference to a node is its index in that array.  The predicate of the \<open>filter\<close> call,
  for the node at index \<open>i\<close> and the other node at index \<open>j\<close>, reads the store \<open>ns\<close>.
\<close>

definition eligible :: "NetworkParams \<Rightarrow> FogNode list \<Rightarrow> nat \<Rightarrow> nat \<Rightarrow> bool" where
  "eligible p ns i j \<longleftrightarrow>
     node_id (ns ! j) \<noteq> node_id (ns ! i) \<and>
     calculateProximity (ns ! i) (ns ! j) \<le> proximityThreshold p \<and>
     int (length (connections (ns ! i))) < maxConnections p"

text \<open>\<open>xs.slice(0, e)\<close>: a negative end counts from the end of the array.\<close>

definition slice0 :: "int \<Rightarrow> 'a list \<Rightarrow> 'a list" where
  "slice0 e xs = (if e < 0 then take (nat (int (length xs) + e)) xs else take (nat e) xs)"

definition potentialConnections :: "NetworkParams \<Rightarrow> FogNode list \<Rightarrow> nat \<Rightarrow> nat list" where
  "potentialConnections p ns i =
     slice0 (maxConnections p) (filter (eligible p ns i) [0..<length ns])"

text \<open>The object literal pushed onto \<open>newEdges\<close>.\<close>

definition new_edge :: "FogNode list \<Rightarrow> nat \<Rightarrow> nat \<Rightarrow> Edge" where
  "new_edge ns i j =
     \<lparr>edge_from = node_id (ns ! i), edge_to = node_id (ns ! j),
      edge_length = calculateProximity (ns ! i) (ns ! j)\<rparr>"

text \<open>
  The body of the inner \<open>forEach\<close>: push the edge, then push the id of the connected node
  onto the connections of the node at index \<open>i\<close>.
\<close>

definition connect :: "nat \<Rightarrow> nat \<Rightarrow> FogNode list \<times> Edge list \<Rightarrow> FogNode list \<times> Edge list" where
  "connect i j st =
     (let ns = fst st; es = snd st; es' = es @ [new_edge ns i j];
          ns' = ns[i := (ns ! i)\<lparr>connections := connections (ns ! i) @ [node_id (ns ! j)]\<rparr>]
      in (ns', es'))"

text \<open>The body of the outer \<open>forEach\<close> for the node at index \<open>i\<close>.\<close>

definition process_node ::
  "NetworkParams \<Rightarrow> nat \<Rightarrow> FogNode list \<times> Edge list \<Rightarrow> FogNode list \<times> Edge list" where
  "process_node p i st = fold (connect i) (potentialConnections p (fst st) i) st"

text \<open>
  \<open>initializeNetwork\<close> returns the pair that it hands to \<open>setNodes\<close> and \<open>setEdges\<close>.
\<close>

definition initializeNetwork ::
  "NetworkParams \<Rightarrow> random_source \<Rightarrow> FogNode list \<times> Edge list" where
  "initializeNetwork p rng =
     (let ns = newNodes p rng in fold (process_node p) [0..<length ns] (ns, []))"

subsection \<open>Auxiliary definitions for the proofs\<close>

text \<open>
  The store \<open>ns\<close> once the outer loop has handled exactly the indices in \<open>S\<close>: each of
  those nodes has received the ids of its own candidates, every other node is untouched.
\<close>

definition store_after :: "NetworkParams \<Rightarrow> FogNode list \<Rightarrow> nat set \<Rightarrow> FogNode list" where
  "store_after p ns S =
     map (\<lambda>j. if j \<in> S
              then (ns ! j)\<lparr>connections := connections (ns ! j) @
                     map (\<lambda>k. node_id (ns ! k)) (potentialConnections p ns j)\<rparr>
              else ns ! j) [0..<length ns]"

text \<open>
  A concrete run: three nodes at (40, 30), (80, 60) and (50, 30), threshold 50 and at most one
  connection per node.  Six draws are used per node: x, y, resource, red, green and blue.
\<close>

definition example_params :: NetworkParams where
  "example_params =
     \<lparr>numNodes = 3, proximityThreshold = 50, maxConnections = 1, resourceCapacity = 100\<rparr>"

definition example_draws :: random_source where
  "example_draws =
     [1/10, 1/10, 1/2, 1/2, 1/4, 0,
      1/5, 1/5, 1/2, 1/2, 1/4, 0,
      1/8, 1/10, 1/2, 1/2, 1/4, 0] @- sconst 0"

text \<open>The parameters of the scenario with three nodes that are all within reach.\<close>

definition three_node_params :: NetworkParams where
  "three_node_params =
     \<lparr>numNodes = 3, proximityThreshold = 1000, maxConnections = 2, resourceCapacity = 100\<rparr>"

section \<open>Properties\<close>

subsection \<open>The inner loop\<close>

lemma node_id_connect_store:
  "node_id (ns[i := (ns ! i)\<lparr>connections := c\<rparr>] ! j) = node_id (ns ! j)"
  by (cases "length ns \<le> i") (simp_all add: nth_list_update list_update_beyond)

lemma calculateProximity_connect_store:
  "calculateProximity (ns[i := (ns ! i)\<lparr>connections := c\<rparr>] ! a) (ns[i := (ns ! i)\<lparr>connections := c\<rparr>] ! b)
     = calculateProximity (ns ! a) (ns ! b)"
  by (cases "length ns \<le> i") (simp_all add: calculateProximity_def nth_list_update list_update_beyond)

lemma new_edge_connect_store:
  "new_edge (ns[i := (ns ! i)\<lparr>connections := c\<rparr>]) a b = new_edge ns a b"
  by (simp add: new_edge_def node_id_connect_store calculateProximity_connect_store)

lemma connect_pair:
  "connect i j (ns, es) =
     (ns[i := (ns ! i)\<lparr>connections := connections (ns ! i) @ [node_id (ns ! j)]\<rparr>],
      es @ [new_edge ns i j])"
  by (simp add: connect_def)

lemma fold_connect:
  "fold (connect i) js (ns, es) =
     (ns[i := (ns ! i)\<lparr>connections := connections (ns ! i) @ map (\<lambda>j. node_id (ns ! j)) js\<rparr>],
      es @ map (new_edge ns i) js)"
proof (induction js arbitrary: ns es)
  case Nil
  show ?case by simp
next
  case (Cons j js)
  let ?ns = "ns[i := (ns ! i)\<lparr>connections := connections (ns ! i) @ [node_id (ns ! j)]\<rparr>]"
  have step: "fold (connect i) (j # js) (ns, es) = fold (connect i) js (?ns, es @ [new_edge ns i j])"
    by (simp add: connect_pair)
  show ?case
  proof (cases "length ns \<le> i")
    case True
    then show ?thesis
      unfolding step Cons.IH by (simp add: list_update_beyond)
  next
    case False
    then show ?thesis
      unfolding step Cons.IH
      by (simp add: node_id_connect_store new_edge_connect_store)
  qed
qed

lemma process_node_eq:
  "process_node p i (ns, es) =
     (ns[i := (ns ! i)\<lparr>connections := connections (ns ! i) @
                 map (\<lambda>j. node_id (ns ! j)) (potentialConnections p ns i)\<rparr>],
      es @ map (new_edge ns i) (potentialConnections p ns i))"
  by (simp add: process_node_def fold_connect)


subsection \<open>The outer loop\<close>

lemma length_store_after: "length (store_after p ns S) = length ns"
  by (simp add: store_after_def)

lemma nth_store_after:
  "j < length ns \<Longrightarrow> store_after p ns S ! j =
     (if j \<in> S
      then (ns ! j)\<lparr>connections := connections (ns ! j) @
             map (\<lambda>k. node_id (ns ! k)) (potentialConnections p ns j)\<rparr>
      else ns ! j)"
  by (simp add: store_after_def)

lemma store_after_empty: "store_after p ns {} = ns"
  by (simp add: store_after_def map_nth)

lemma potentialConnections_bound:
  "j \<in> set (potentialConnections p ns i) \<Longrightarrow> j < length ns"
  by (auto simp: potentialConnections_def slice0_def dest!: in_set_takeD split: if_splits)

lemma eligible_store_after:
  assumes "i < length ns" "i \<notin> S" "j < length ns"
  shows "eligible p (store_after p ns S) i j = eligible p ns i j"
  using assms by (simp add: eligible_def nth_store_after calculateProximity_def)

lemma potentialConnections_store_after:
  assumes "i < length ns" "i \<notin> S"
  shows "potentialConnections p (store_after p ns S) i = potentialConnections p ns i"
proof -
  have "filter (eligible p (store_after p ns S) i) [0..<length ns]
          = filter (eligible p ns i) [0..<length ns]"
    by (rule filter_cong) (simp_all add: eligible_store_after assms)
  then show ?thesis
    by (simp add: potentialConnections_def length_store_after)
qed

lemma new_edge_store_after:
  assumes "i < length ns" "j < length ns"
  shows "new_edge (store_after p ns S) i j = new_edge ns i j"
  using assms by (simp add: new_edge_def nth_store_after calculateProximity_def)

lemma node_id_store_after:
  "j < length ns \<Longrightarrow> node_id (store_after p ns S ! j) = node_id (ns ! j)"
  by (simp add: nth_store_after)

lemma process_node_store_after:
  assumes i: "i < length ns" and S: "i \<notin> S"
  shows "process_node p i (store_after p ns S, es) =
           (store_after p ns (insert i S), es @ map (new_edge ns i) (potentialConnections p ns i))"
proof -
  let ?st = "store_after p ns S"
  let ?pc = "potentialConnections p ns i"
  have pc: "potentialConnections p ?st i = ?pc"
    by (rule potentialConnections_store_after [OF i S])
  have ids: "map (\<lambda>j. node_id (?st ! j)) ?pc = map (\<lambda>j. node_id (ns ! j)) ?pc"
    by (rule map_cong) (simp_all add: node_id_store_after potentialConnections_bound)
  have edges: "map (new_edge ?st i) ?pc = map (new_edge ns i) ?pc"
    by (rule map_cong) (simp_all add: new_edge_store_after i potentialConnections_bound)
  have store: "?st[i := (?st ! i)\<lparr>connections := connections (?st ! i) @
                   map (\<lambda>j. node_id (ns ! j)) ?pc\<rparr>] = store_after p ns (insert i S)"
  proof (rule nth_equalityI)
    show "length (?st[i := (?st ! i)\<lparr>connections := connections (?st ! i) @
                   map (\<lambda>j. node_id (ns ! j)) ?pc\<rparr>]) = length (store_after p ns (insert i S))"
      by (simp add: length_store_after)
  next
    fix j
    assume "j < length (?st[i := (?st ! i)\<lparr>connections := connections (?st ! i) @
                   map (\<lambda>j. node_id (ns ! j)) ?pc\<rparr>])"
    then have j: "j < length ns" by (simp add: length_store_after)
    show "?st[i := (?st ! i)\<lparr>connections := connections (?st ! i) @
                   map (\<lambda>j. node_id (ns ! j)) ?pc\<rparr>] ! j = store_after p ns (insert i S) ! j"
      using i S j
      by (cases "j = i") (simp_all add: nth_store_after length_store_after)
  qed
  show ?thesis
    unfolding process_node_eq pc ids edges store ..
qed

lemma fold_process_node:
  assumes "distinct js" "set js \<inter> S = {}" "\<forall>j \<in> set js. j < length ns"
  shows "fold (process_node p) js (store_after p ns S, es) =
           (store_after p ns (S \<union> set js),
            es @ concat (map (\<lambda>i. map (new_edge ns i) (potentialConnections p ns i)) js))"
  using assms
proof (induction js arbitrary: S es)
  case Nil
  show ?case by simp
next
  case (Cons i js)
  have i: "i < length ns" and S: "i \<notin> S" using Cons.prems by auto
  have rest: "distinct js" "set js \<inter> insert i S = {}" "\<forall>j \<in> set js. j < length ns"
    using Cons.prems by auto
  have "fold (process_node p) (i # js) (store_after p ns S, es) =
          fold (process_node p) js (process_node p i (store_after p ns S, es))"
    by simp
  also have "\<dots> = fold (process_node p) js
        (store_after p ns (insert i S), es @ map (new_edge ns i) (potentialConnections p ns i))"
    by (simp only: process_node_store_after [OF i S])
  also have "\<dots> = (store_after p ns (insert i S \<union> set js),
        (es @ map (new_edge ns i) (potentialConnections p ns i)) @
        concat (map (\<lambda>i. map (new_edge ns i) (potentialConnections p ns i)) js))"
    by (rule Cons.IH [OF rest])
  finally show ?case by simp
qed

lemma initializeNetwork_eq:
  "initializeNetwork p rng =
     (store_after p (newNodes p rng) {..<length (newNodes p rng)},
      concat (map (\<lambda>i. map (new_edge (newNodes p rng) i)
                 (potentialConnections p (newNodes p rng) i)) [0..<length (newNodes p rng)]))"
proof -
  let ?ns = "newNodes p rng"
  have "fold (process_node p) [0..<length ?ns] (store_after p ?ns {}, []) =
          (store_after p ?ns ({} \<union> set [0..<length ?ns]),
           [] @ concat (map (\<lambda>i. map (new_edge ?ns i) (potentialConnections p ?ns i)) [0..<length ?ns]))"
    by (rule fold_process_node) simp_all
  then show ?thesis
    by (simp add: initializeNetwork_def Let_def store_after_empty atLeast0LessThan)
qed

subsection \<open>Node creation\<close>

lemmas draw_defs = Math_random_def new_FogNodeImpl_def generateRandomColor_def Let_def case_prod_beta

lemma length_Array_from: "length (fst (Array_from p i k rng)) = k"
  by (induction k arbitrary: i rng) (simp_all add: draw_defs)

lemma node_id_Array_from: "map node_id (fst (Array_from p i k rng)) = [i..<i + k]"
  by (induction k arbitrary: i rng) (simp_all add: draw_defs upt_rec)

lemma connections_Array_from:
  "nd \<in> set (fst (Array_from p i k rng)) \<Longrightarrow> connections nd = []"
  by (induction k arbitrary: i rng) (auto simp: draw_defs)

lemma unit_draws_stl: "unit_draws rng \<Longrightarrow> unit_draws (stl rng)"
  by (auto simp: unit_draws_def dest: stl_sset)

lemma unit_draws_shd: "unit_draws rng \<Longrightarrow> 0 \<le> shd rng \<and> shd rng < 1"
  by (simp add: unit_draws_def shd_sset)

lemma bounds_Array_from:
  "unit_draws rng \<Longrightarrow> nd \<in> set (fst (Array_from p i k rng)) \<Longrightarrow>
     0 \<le> node_x nd \<and> node_x nd < 400 \<and> 0 \<le> node_y nd \<and> node_y nd < 300"
proof (induction k arbitrary: i rng)
  case 0
  then show ?case by simp
next
  case (Suc k)
  have a: "0 \<le> shd rng \<and> shd rng < 1"
    using Suc.prems(1) by (rule unit_draws_shd)
  have b: "0 \<le> shd (stl rng) \<and> shd (stl rng) < 1"
    using Suc.prems(1) by (intro unit_draws_shd unit_draws_stl)
  have c: "unit_draws (stl (stl (stl (stl (stl (stl rng))))))"
    using Suc.prems(1) by (intro unit_draws_stl)
  from Suc.prems(2) consider
      (hd) "node_x nd = shd rng * 400" "node_y nd = shd (stl rng) * 300"
    | (tl) "nd \<in> set (fst (Array_from p (Suc i) k (stl (stl (stl (stl (stl (stl rng))))))))"
    by (auto simp: draw_defs)
  then show ?case
  proof cases
    case hd
    with a b show ?thesis by simp
  next
    case tl
    with c show ?thesis by (rule Suc.IH)
  qed
qed

lemma stake_6:
  "stake (6 + n) s = [shd s, shd (stl s), shd (stl (stl s)), shd (stl (stl (stl s))),
      shd (stl (stl (stl (stl s)))), shd (stl (stl (stl (stl (stl s)))))]
      @ stake n (stl (stl (stl (stl (stl (stl s))))))"
proof -
  have "(6::nat) + n = Suc (Suc (Suc (Suc (Suc (Suc n)))))" by simp
  then show ?thesis by (simp only: stake.simps append.simps)
qed

lemma Array_from_cong:
  "stake (6 * k) r1 = stake (6 * k) r2 \<Longrightarrow>
     fst (Array_from p i k r1) = fst (Array_from p i k r2)"
proof (induction k arbitrary: i r1 r2)
  case 0
  show ?case by simp
next
  case (Suc k)
  have "6 * Suc k = 6 + 6 * k" by simp
  with Suc.prems have eq: "stake (6 + 6 * k) r1 = stake (6 + 6 * k) r2" by simp
  then have heads: "shd r1 = shd r2" "shd (stl r1) = shd (stl r2)"
      "shd (stl (stl r1)) = shd (stl (stl r2))"
      "shd (stl (stl (stl r1))) = shd (stl (stl (stl r2)))"
      "shd (stl (stl (stl (stl r1)))) = shd (stl (stl (stl (stl r2))))"
      "shd (stl (stl (stl (stl (stl r1))))) = shd (stl (stl (stl (stl (stl r2)))))"
    and rest: "stake (6 * k) (stl (stl (stl (stl (stl (stl r1)))))) =
               stake (6 * k) (stl (stl (stl (stl (stl (stl r2))))))"
    unfolding stake_6 by simp_all
  have "fst (Array_from p (Suc i) k (stl (stl (stl (stl (stl (stl r1))))))) =
        fst (Array_from p (Suc i) k (stl (stl (stl (stl (stl (stl r2)))))))"
    using rest by (rule Suc.IH)
  then show ?case
    by (simp add: draw_defs heads)
qed

subsection \<open>The generated network in closed form\<close>

lemma length_newNodes: "length (newNodes p rng) = nat (numNodes p)"
  by (simp add: newNodes_def length_Array_from)

lemma node_id_newNodes:
  assumes "j < length (newNodes p rng)"
  shows "node_id (newNodes p rng ! j) = j"
proof -
  have "map node_id (newNodes p rng) ! j = [0..<length (newNodes p rng)] ! j"
    by (simp add: newNodes_def node_id_Array_from length_Array_from)
  with assms show ?thesis by simp
qed

lemma connections_newNodes:
  "j < length (newNodes p rng) \<Longrightarrow> connections (newNodes p rng ! j) = []"
  by (rule connections_Array_from [of _ p 0 "nat (numNodes p)" rng])
     (simp add: newNodes_def)

lemma eligible_newNodes:
  assumes "i < length (newNodes p rng)" "j < length (newNodes p rng)"
  shows "eligible p (newNodes p rng) i j \<longleftrightarrow>
           j \<noteq> i \<and>
           calculateProximity (newNodes p rng ! i) (newNodes p rng ! j) \<le> proximityThreshold p \<and>
           0 < maxConnections p"
  using assms by (simp add: eligible_def node_id_newNodes connections_newNodes)

lemma potentialConnections_newNodes:
  assumes "i < length (newNodes p rng)"
  shows "potentialConnections p (newNodes p rng) i =
           slice0 (maxConnections p)
             (filter (\<lambda>j. j \<noteq> i \<and>
                  calculateProximity (newNodes p rng ! i) (newNodes p rng ! j) \<le> proximityThreshold p \<and>
                  0 < maxConnections p) [0..<length (newNodes p rng)])"
proof -
  have "filter (eligible p (newNodes p rng) i) [0..<length (newNodes p rng)] =
        filter (\<lambda>j. j \<noteq> i \<and>
                  calculateProximity (newNodes p rng ! i) (newNodes p rng ! j) \<le> proximityThreshold p \<and>
                  0 < maxConnections p) [0..<length (newNodes p rng)]"
    by (rule filter_cong) (simp_all add: eligible_newNodes assms)
  then show ?thesis by (simp add: potentialConnections_def)
qed

lemma potentialConnections_eligible:
  "j \<in> set (potentialConnections p ns i) \<Longrightarrow> eligible p ns i j"
  by (auto simp: potentialConnections_def slice0_def dest!: in_set_takeD split: if_splits)

lemma length_nodes: "length (fst (initializeNetwork p rng)) = length (newNodes p rng)"
  by (simp add: initializeNetwork_eq length_store_after)

lemma nth_nodes:
  assumes "j < length (newNodes p rng)"
  shows "fst (initializeNetwork p rng) ! j =
           (newNodes p rng ! j)\<lparr>connections := potentialConnections p (newNodes p rng) j\<rparr>"
proof -
  have "map (\<lambda>k. node_id (newNodes p rng ! k)) (potentialConnections p (newNodes p rng) j) =
        map (\<lambda>k. k) (potentialConnections p (newNodes p rng) j)"
    by (rule map_cong) (simp_all add: node_id_newNodes potentialConnections_bound)
  with assms show ?thesis
    by (simp add: initializeNetwork_eq nth_store_after connections_newNodes)
qed

lemma new_edge_newNodes:
  assumes "i < length (newNodes p rng)" "j < length (newNodes p rng)"
  shows "new_edge (newNodes p rng) i j =
           \<lparr>edge_from = i, edge_to = j,
            edge_length = calculateProximity (newNodes p rng ! i) (newNodes p rng ! j)\<rparr>"
  using assms by (simp add: new_edge_def node_id_newNodes)

lemma edges_eq:
  "snd (initializeNetwork p rng) =
     concat (map (\<lambda>i. map (new_edge (newNodes p rng) i)
                 (potentialConnections p (newNodes p rng) i)) [0..<length (newNodes p rng)])"
  by (simp add: initializeNetwork_eq)

lemma edge_cases:
  assumes "e \<in> set (snd (initializeNetwork p rng))"
  obtains i j where "i < length (newNodes p rng)" "j < length (newNodes p rng)"
    "eligible p (newNodes p rng) i j"
    "e = \<lparr>edge_from = i, edge_to = j,
          edge_length = calculateProximity (newNodes p rng ! i) (newNodes p rng ! j)\<rparr>"
proof -
  from assms obtain i j where i: "i < length (newNodes p rng)"
    and j: "j \<in> set (potentialConnections p (newNodes p rng) i)"
    and e: "e = new_edge (newNodes p rng) i j"
    by (auto simp: edges_eq)
  from j have j': "j < length (newNodes p rng)" by (rule potentialConnections_bound)
  from j have "eligible p (newNodes p rng) i j" by (rule potentialConnections_eligible)
  with i j' e that show thesis by (simp add: new_edge_newNodes)
qed

lemma set_nodes_cases:
  assumes "nd \<in> set (fst (initializeNetwork p rng))"
  obtains j where "j < length (newNodes p rng)" "nd = fst (initializeNetwork p rng) ! j"
  using assms by (auto simp: in_set_conv_nth length_nodes)

subsection \<open>The concrete run\<close>

lemma calculateProximity_le_iff:
  "calculateProximity a b \<le> t \<longleftrightarrow>
     0 \<le> t \<and> (node_x a - node_x b)\<^sup>2 + (node_y a - node_y b)\<^sup>2 \<le> t\<^sup>2"
proof (cases "0 \<le> t")
  case True
  then show ?thesis
    by (simp add: calculateProximity_def real_sqrt_le_iff [symmetric, of _ "t\<^sup>2"])
next
  case False
  have "0 \<le> calculateProximity a b" by (simp add: calculateProximity_def)
  with False show ?thesis by simp
qed

lemma calculateProximity_eq_iff:
  "calculateProximity a b = t \<longleftrightarrow>
     0 \<le> t \<and> (node_x a - node_x b)\<^sup>2 + (node_y a - node_y b)\<^sup>2 = t\<^sup>2"
proof (cases "0 \<le> t")
  case True
  then show ?thesis
    by (simp add: calculateProximity_def real_sqrt_eq_iff [symmetric, of _ "t\<^sup>2"])
next
  case False
  have "0 \<le> calculateProximity a b" by (simp add: calculateProximity_def)
  with False show ?thesis by auto
qed

lemma show_int_examples: "show_int 100 = ''100''" "show_int 50 = ''50''" "show_int 0 = ''0''"
  by (simp_all add: show_int_def show_nat.simps digit_char_def)

lemmas run_defs = initializeNetwork_def newNodes_def eval_nat_numeral Math_random_def
  new_FogNodeImpl_def generateRandomColor_def Let_def show_int_examples process_node_def
  potentialConnections_def eligible_def calculateProximity_le_iff calculateProximity_eq_iff
  slice0_def connect_def new_edge_def upt_rec

lemma example_network:
  "initializeNetwork example_params example_draws =
     ([\<lparr>node_id = 0, node_x = 40, node_y = 30, resources = 50, connections = [1],
        color = ''rgb(100, 50, 0)''\<rparr>,
       \<lparr>node_id = 1, node_x = 80, node_y = 60, resources = 50, connections = [0],
        color = ''rgb(100, 50, 0)''\<rparr>,
       \<lparr>node_id = 2, node_x = 50, node_y = 30, resources = 50, connections = [0],
        color = ''rgb(100, 50, 0)''\<rparr>],
      [\<lparr>edge_from = 0, edge_to = 1, edge_length = 50\<rparr>,
       \<lparr>edge_from = 1, edge_to = 0, edge_length = 50\<rparr>,
       \<lparr>edge_from = 2, edge_to = 0, edge_length = 10\<rparr>])"
  by (simp add: example_params_def example_draws_def run_defs)

lemma unit_draws_example: "unit_draws example_draws"
  by (simp add: unit_draws_def example_draws_def)

text \<open>
  C1. For valid parameters (\<open>numNodes\<close> at least 1) the returned node sequence has exactly
  \<open>numNodes\<close> nodes, and their ids are \<open>0, 1, ..., numNodes - 1\<close> in creation order, hence
  unique and contiguous.
\<close>

theorem node_ids_sequential:
  assumes "1 \<le> numNodes p"
  shows "int (length (fst (initializeNetwork p rng))) = numNodes p \<and>
         map node_id (fst (initializeNetwork p rng)) = [0..<nat (numNodes p)] \<and>
         distinct (map node_id (fst (initializeNetwork p rng)))"
proof -
  let ?nodes = "fst (initializeNetwork p rng)"
  have len: "length ?nodes = nat (numNodes p)"
    by (simp add: length_nodes length_newNodes)
  have ids: "map node_id ?nodes = [0..<nat (numNodes p)]"
  proof (rule nth_equalityI)
    show "length (map node_id ?nodes) = length [0..<nat (numNodes p)]"
      by (simp add: len)
  next
    fix j
    assume "j < length (map node_id ?nodes)"
    then have j: "j < length (newNodes p rng)" by (simp add: length_nodes)
    moreover from j have "j < nat (numNodes p)" by (simp add: length_newNodes)
    ultimately show "map node_id ?nodes ! j = [0..<nat (numNodes p)] ! j"
      by (simp add: length_nodes nth_nodes node_id_newNodes)
  qed
  from assms len ids show ?thesis by simp
qed

theorem node_ids_sequential_witness:
  "1 \<le> numNodes example_params \<and>
   length (fst (initializeNetwork example_params example_draws)) = 3 \<and>
   map node_id (fst (initializeNetwork example_params example_draws)) = [0, 1, 2]"
  using node_ids_sequential [of example_params example_draws]
  by (simp add: example_params_def upt_rec)

text \<open>
  C2. Every edge of the output joins two distinct ids, both ids belong to returned nodes
  (the node stored at that index carries that id), and the length of the edge is the
  Euclidean distance between the recorded positions of its two end points.
\<close>

theorem edge_endpoints_and_length:
  assumes "e \<in> set (snd (initializeNetwork p rng))"
  shows "edge_from e \<noteq> edge_to e \<and>
         edge_from e < length (fst (initializeNetwork p rng)) \<and>
         edge_to e < length (fst (initializeNetwork p rng)) \<and>
         node_id (fst (initializeNetwork p rng) ! edge_from e) = edge_from e \<and>
         node_id (fst (initializeNetwork p rng) ! edge_to e) = edge_to e \<and>
         edge_length e =
           sqrt ((node_x (fst (initializeNetwork p rng) ! edge_from e) -
                  node_x (fst (initializeNetwork p rng) ! edge_to e))\<^sup>2 +
                 (node_y (fst (initializeNetwork p rng) ! edge_from e) -
                  node_y (fst (initializeNetwork p rng) ! edge_to e))\<^sup>2)"
  using assms
proof (rule edge_cases)
  fix i j
  assume i: "i < length (newNodes p rng)" and j: "j < length (newNodes p rng)"
    and el: "eligible p (newNodes p rng) i j"
    and e: "e = \<lparr>edge_from = i, edge_to = j,
          edge_length = calculateProximity (newNodes p rng ! i) (newNodes p rng ! j)\<rparr>"
  from el i j have "j \<noteq> i" by (simp add: eligible_newNodes)
  with i j e show ?thesis
    by (simp add: length_nodes nth_nodes node_id_newNodes calculateProximity_def)
qed

theorem edge_endpoints_and_length_witness:
  "\<lparr>edge_from = 2, edge_to = 0, edge_length = 10\<rparr>
     \<in> set (snd (initializeNetwork example_params example_draws)) \<and>
   (2::nat) \<noteq> 0 \<and>
   node_id (fst (initializeNetwork example_params example_draws) ! 2) = 2 \<and>
   node_id (fst (initializeNetwork example_params example_draws) ! 0) = 0 \<and>
   (10::real) = sqrt ((50 - 40)\<^sup>2 + (30 - 30)\<^sup>2)"
  using edge_endpoints_and_length [of "\<lparr>edge_from = 2, edge_to = 0, edge_length = 10\<rparr>"
      example_params example_draws]
  by (simp add: example_network eval_nat_numeral)

text \<open>
  C3. Every edge of the output is at most \<open>proximityThreshold\<close> long.
\<close>

theorem edge_length_within_threshold:
  assumes "e \<in> set (snd (initializeNetwork p rng))"
  shows "edge_length e \<le> proximityThreshold p"
  using assms
proof (rule edge_cases)
  fix i j
  assume "i < length (newNodes p rng)" "j < length (newNodes p rng)"
    "eligible p (newNodes p rng) i j"
    "e = \<lparr>edge_from = i, edge_to = j,
          edge_length = calculateProximity (newNodes p rng ! i) (newNodes p rng ! j)\<rparr>"
  then show ?thesis by (simp add: eligible_def)
qed

theorem edge_length_within_threshold_witness:
  "\<lparr>edge_from = 0, edge_to = 1, edge_length = 50\<rparr>
     \<in> set (snd (initializeNetwork example_params example_draws)) \<and>
   edge_length \<lparr>edge_from = 0, edge_to = 1, edge_length = 50\<rparr>
     \<le> proximityThreshold example_params"
  using edge_length_within_threshold [of "\<lparr>edge_from = 0, edge_to = 1, edge_length = 50\<rparr>"
      example_params example_draws]
  by (simp add: example_network)

subsection \<open>Outgoing edges of one node\<close>

lemma filter_concat_other:
  assumes "\<And>a e. a \<in> set js \<Longrightarrow> e \<in> set (f a) \<Longrightarrow> key e = a" "i \<notin> set js"
  shows "filter (\<lambda>e. key e = i) (concat (map f js)) = []"
  using assms by (induction js) (auto simp: filter_empty_conv)

lemma filter_concat_key:
  assumes "\<And>a e. a \<in> set js \<Longrightarrow> e \<in> set (f a) \<Longrightarrow> key e = a" "distinct js" "i \<in> set js"
  shows "filter (\<lambda>e. key e = i) (concat (map f js)) = f i"
  using assms
proof (induction js)
  case Nil
  then show ?case by simp
next
  case (Cons a js)
  have keyed: "\<And>b e. b \<in> set js \<Longrightarrow> e \<in> set (f b) \<Longrightarrow> key e = b"
    using Cons.prems(1) by simp
  show ?case
  proof (cases "a = i")
    case True
    then have "i \<notin> set js" using Cons.prems(2) by simp
    with keyed have "filter (\<lambda>e. key e = i) (concat (map f js)) = []"
      by (rule filter_concat_other)
    moreover have "filter (\<lambda>e. key e = i) (f i) = f i"
      using Cons.prems(1) [of i] True by (simp add: filter_id_conv)
    ultimately show ?thesis using True by simp
  next
    case False
    then have "i \<in> set js" using Cons.prems(3) by simp
    with keyed Cons.prems(2) have "filter (\<lambda>e. key e = i) (concat (map f js)) = f i"
      by (intro Cons.IH) simp_all
    moreover have "filter (\<lambda>e. key e = i) (f a) = []"
      using Cons.prems(1) [of a] False by (auto simp: filter_empty_conv)
    ultimately show ?thesis by simp
  qed
qed

lemma outgoing_edges:
  assumes "i < length (newNodes p rng)"
  shows "filter (\<lambda>e. edge_from e = i) (snd (initializeNetwork p rng)) =
           map (new_edge (newNodes p rng) i) (potentialConnections p (newNodes p rng) i)"
  unfolding edges_eq
proof (rule filter_concat_key)
  fix a e
  assume "a \<in> set [0..<length (newNodes p rng)]"
    and "e \<in> set (map (new_edge (newNodes p rng) a) (potentialConnections p (newNodes p rng) a))"
  then show "edge_from e = a"
    by (auto simp: new_edge_def node_id_newNodes)
qed (simp_all add: assms)

lemma length_slice0: "0 \<le> e \<Longrightarrow> int (length (slice0 e xs)) \<le> e"
  by (simp add: slice0_def)

text \<open>
  C4. For parameters in the input domain (\<open>maxConnections\<close> not negative), every node of the
  output is the \<open>from\<close> end of at most \<open>maxConnections\<close> edges.
\<close>

theorem outgoing_edges_capped:
  assumes "0 \<le> maxConnections p" and "nd \<in> set (fst (initializeNetwork p rng))"
  shows "int (length (filter (\<lambda>e. edge_from e = node_id nd) (snd (initializeNetwork p rng))))
           \<le> maxConnections p"
  using assms(2)
proof (rule set_nodes_cases)
  fix j
  assume j: "j < length (newNodes p rng)" and nd: "nd = fst (initializeNetwork p rng) ! j"
  then have "node_id nd = j" by (simp add: nth_nodes node_id_newNodes)
  with j have "length (filter (\<lambda>e. edge_from e = node_id nd) (snd (initializeNetwork p rng))) =
      length (potentialConnections p (newNodes p rng) j)"
    by (simp add: outgoing_edges)
  also have "int \<dots> \<le> maxConnections p"
    unfolding potentialConnections_def using assms(1) by (rule length_slice0)
  finally show ?thesis .
qed

theorem outgoing_edges_capped_witness:
  "0 \<le> maxConnections example_params \<and>
   fst (initializeNetwork example_params example_draws) ! 0
     \<in> set (fst (initializeNetwork example_params example_draws)) \<and>
   int (length (filter (\<lambda>e. edge_from e = 0) (snd (initializeNetwork example_params example_draws))))
     \<le> 1"
  using outgoing_edges_capped [of example_params
      "fst (initializeNetwork example_params example_draws) ! 0" example_draws]
  by (simp add: example_network) (simp add: example_params_def)

text \<open>
  C9. The pass of the node at index \<open>i\<close> leaves the array length and every other node as
  they were, and changes nothing but the connections of node \<open>i\<close>; after generation the
  connections of every node are, in order, the \<open>to\<close> ids of the edges whose \<open>from\<close> is that
  node's id.
\<close>

theorem connections_are_own_edges:
  "length (fst (process_node p i (ns, es))) = length ns \<and>
   (\<forall>j. j \<noteq> i \<longrightarrow> fst (process_node p i (ns, es)) ! j = ns ! j) \<and>
   (fst (process_node p i (ns, es)) ! i)\<lparr>connections := connections (ns ! i)\<rparr> = ns ! i \<and>
   (\<forall>nd \<in> set (fst (initializeNetwork p rng)).
      connections nd =
        map edge_to (filter (\<lambda>e. edge_from e = node_id nd) (snd (initializeNetwork p rng))))"
proof (intro conjI allI impI ballI)
  show "length (fst (process_node p i (ns, es))) = length ns"
    by (simp add: process_node_eq)
next
  fix j assume "j \<noteq> i"
  then show "fst (process_node p i (ns, es)) ! j = ns ! j"
    by (simp add: process_node_eq)
next
  show "(fst (process_node p i (ns, es)) ! i)\<lparr>connections := connections (ns ! i)\<rparr> = ns ! i"
    by (cases "length ns \<le> i") (simp_all add: process_node_eq list_update_beyond)
next
  fix nd
  assume "nd \<in> set (fst (initializeNetwork p rng))"
  then show "connections nd =
      map edge_to (filter (\<lambda>e. edge_from e = node_id nd) (snd (initializeNetwork p rng)))"
  proof (rule set_nodes_cases)
    fix j
    assume j: "j < length (newNodes p rng)" and nd: "nd = fst (initializeNetwork p rng) ! j"
    let ?pc = "potentialConnections p (newNodes p rng) j"
    have id: "node_id nd = j" using j nd by (simp add: nth_nodes node_id_newNodes)
    have "map edge_to (map (new_edge (newNodes p rng) j) ?pc) = map (\<lambda>k. k) ?pc"
      unfolding map_map
      by (rule map_cong) (simp_all add: new_edge_def node_id_newNodes potentialConnections_bound)
    then have "map edge_to (filter (\<lambda>e. edge_from e = node_id nd) (snd (initializeNetwork p rng)))
        = ?pc"
      using j id by (simp add: outgoing_edges)
    moreover have "connections nd = ?pc" using j nd by (simp add: nth_nodes)
    ultimately show ?thesis by simp
  qed
qed

theorem connections_are_own_edges_witness:
  "connections (fst (initializeNetwork example_params example_draws) ! 2) = [0] \<and>
   map edge_to (filter (\<lambda>e. edge_from e = 2)
     (snd (initializeNetwork example_params example_draws))) = [0] \<and>
   fst (process_node example_params 0 (newNodes example_params example_draws, [])) ! 1 =
     newNodes example_params example_draws ! 1"
  using connections_are_own_edges [of example_params 0 "newNodes example_params example_draws" "[]"
      example_draws]
  by (simp add: example_network)

subsection \<open>Positions and distances\<close>

lemma position_nodes:
  assumes "j < length (newNodes p rng)"
  shows "node_x (fst (initializeNetwork p rng) ! j) = node_x (newNodes p rng ! j)"
    and "node_y (fst (initializeNetwork p rng) ! j) = node_y (newNodes p rng ! j)"
  using assms by (simp_all add: nth_nodes)

lemma bounds_newNodes:
  assumes "unit_draws rng" "j < length (newNodes p rng)"
  shows "0 \<le> node_x (newNodes p rng ! j) \<and> node_x (newNodes p rng ! j) < 400 \<and>
         0 \<le> node_y (newNodes p rng ! j) \<and> node_y (newNodes p rng ! j) < 300"
proof -
  from assms(2) have "newNodes p rng ! j \<in> set (fst (Array_from p 0 (nat (numNodes p)) rng))"
    by (simp add: newNodes_def)
  with assms(1) show ?thesis by (rule bounds_Array_from)
qed

lemma distance_in_bounds:
  fixes a b :: FogNode
  assumes a: "0 \<le> node_x a \<and> node_x a < 400 \<and> 0 \<le> node_y a \<and> node_y a < 300"
    and b: "0 \<le> node_x b \<and> node_x b < 400 \<and> 0 \<le> node_y b \<and> node_y b < 300"
  shows "calculateProximity a b < 500"
proof -
  have "\<bar>node_x a - node_x b\<bar> < 400" using a b by linarith
  then have "\<bar>node_x a - node_x b\<bar>\<^sup>2 < 400\<^sup>2"
    by (intro power_strict_mono) simp_all
  then have dx: "(node_x a - node_x b)\<^sup>2 < 160000" by simp
  have "\<bar>node_y a - node_y b\<bar> < 300" using a b by linarith
  then have "\<bar>node_y a - node_y b\<bar>\<^sup>2 < 300\<^sup>2"
    by (intro power_strict_mono) simp_all
  then have dy: "(node_y a - node_y b)\<^sup>2 < 90000" by simp
  from dx dy have "(node_x a - node_x b)\<^sup>2 + (node_y a - node_y b)\<^sup>2 < 500\<^sup>2" by simp
  then show ?thesis
    unfolding calculateProximity_def by (intro real_less_lsqrt) simp_all
qed

lemma distance_newNodes:
  assumes "unit_draws rng" "i < length (newNodes p rng)" "j < length (newNodes p rng)"
  shows "calculateProximity (newNodes p rng ! i) (newNodes p rng ! j) < 500"
  by (intro distance_in_bounds bounds_newNodes assms)

text \<open>
  C10. When every draw of the random source lies in the half-open unit interval, as the
  draws of \<open>Math.random\<close> do, every node of the output has \<open>0 \<le> x < 400\<close> and
  \<open>0 \<le> y < 300\<close>, and two nodes of the output are less than 500 apart.
\<close>

theorem positions_within_bounds:
  assumes "unit_draws rng"
    and "a \<in> set (fst (initializeNetwork p rng))"
    and "b \<in> set (fst (initializeNetwork p rng))"
  shows "0 \<le> node_x a \<and> node_x a < 400 \<and> 0 \<le> node_y a \<and> node_y a < 300 \<and>
         calculateProximity a b \<le> 500"
proof -
  have in_bounds: "0 \<le> node_x c \<and> node_x c < 400 \<and> 0 \<le> node_y c \<and> node_y c < 300"
    if "c \<in> set (fst (initializeNetwork p rng))" for c
    using that
  proof (rule set_nodes_cases)
    fix j
    assume j: "j < length (newNodes p rng)" and c: "c = fst (initializeNetwork p rng) ! j"
    from bounds_newNodes [OF assms(1) j] show ?thesis
      by (simp add: c position_nodes [OF j])
  qed
  have "calculateProximity a b < 500"
    by (intro distance_in_bounds in_bounds assms)
  with in_bounds [OF assms(2)] show ?thesis by simp
qed

theorem positions_within_bounds_witness:
  "unit_draws example_draws \<and>
   node_x (fst (initializeNetwork example_params example_draws) ! 1) = 80 \<and>
   node_y (fst (initializeNetwork example_params example_draws) ! 1) = 60 \<and>
   calculateProximity (fst (initializeNetwork example_params example_draws) ! 1)
     (fst (initializeNetwork example_params example_draws) ! 2) \<le> 500"
  using positions_within_bounds [of example_draws
      "fst (initializeNetwork example_params example_draws) ! 1" example_params
      "fst (initializeNetwork example_params example_draws) ! 2"] unit_draws_example
  by (simp add: example_network eval_nat_numeral)

subsection \<open>Dependence on the random source\<close>

text \<open>
  C8. The output is a function of the parameters and of the draws consumed, six per node:
  two runs with the same parameters whose random sources agree on the first
  \<open>6 * numNodes\<close> draws return the same nodes and the same edges.
\<close>

theorem generation_deterministic:
  assumes "stake (6 * nat (numNodes p)) rng1 = stake (6 * nat (numNodes p)) rng2"
  shows "initializeNetwork p rng1 = initializeNetwork p rng2"
proof -
  from assms have "newNodes p rng1 = newNodes p rng2"
    unfolding newNodes_def by (rule Array_from_cong)
  then show ?thesis by (simp add: initializeNetwork_def)
qed

theorem generation_deterministic_witness:
  "stake (6 * nat (numNodes example_params)) example_draws =
     stake (6 * nat (numNodes example_params)) (stake 18 example_draws @- sconst (1/2)) \<and>
   example_draws !! 18 \<noteq> (stake 18 example_draws @- sconst (1/2)) !! 18 \<and>
   initializeNetwork example_params example_draws =
     initializeNetwork example_params (stake 18 example_draws @- sconst (1/2))"
  using generation_deterministic [of example_params example_draws
      "stake 18 example_draws @- sconst (1/2)"]
  by (simp add: example_params_def example_draws_def stake_shift eval_nat_numeral)

subsection \<open>A threshold of zero\<close>

text \<open>
  Five nodes that all sit at (200, 150): with a threshold of 0 and at most one connection,
  every node is connected to the first other node, so there are five edges.
\<close>

theorem zero_threshold_counterexample:
  "length (snd (initializeNetwork
      \<lparr>numNodes = 5, proximityThreshold = 0, maxConnections = 1, resourceCapacity = 100\<rparr>
      (sconst (1/2)))) = 5"
  by (simp add: run_defs)

text \<open>
  C5 (amended). When \<open>proximityThreshold\<close> is 0 and no two nodes of the output share a
  position, the output has no edges, whatever \<open>maxConnections\<close> is.
\<close>

theorem zero_threshold_no_edges:
  assumes "proximityThreshold p = 0"
    and "distinct (map (\<lambda>nd. (node_x nd, node_y nd)) (fst (initializeNetwork p rng)))"
  shows "snd (initializeNetwork p rng) = []"
proof -
  have "e \<notin> set (snd (initializeNetwork p rng))" for e
  proof
    assume "e \<in> set (snd (initializeNetwork p rng))"
    then show False
    proof (rule edge_cases)
      fix i j
      assume i: "i < length (newNodes p rng)" and j: "j < length (newNodes p rng)"
        and el: "eligible p (newNodes p rng) i j"
      let ?pos = "map (\<lambda>nd. (node_x nd, node_y nd)) (fst (initializeNetwork p rng))"
      from el i j have ne: "j \<noteq> i"
        and "calculateProximity (newNodes p rng ! i) (newNodes p rng ! j) \<le> 0"
        by (simp_all add: eligible_newNodes assms(1))
      then have "(node_x (newNodes p rng ! i) - node_x (newNodes p rng ! j))\<^sup>2 +
                 (node_y (newNodes p rng ! i) - node_y (newNodes p rng ! j))\<^sup>2 \<le> 0"
        by (simp add: calculateProximity_le_iff)
      then have "node_x (newNodes p rng ! i) = node_x (newNodes p rng ! j) \<and>
                 node_y (newNodes p rng ! i) = node_y (newNodes p rng ! j)"
        by (simp add: sum_power2_le_zero_iff)
      with i j have "?pos ! i = ?pos ! j"
        by (simp add: length_nodes position_nodes)
      moreover have "i < length ?pos" "j < length ?pos"
        using i j by (simp_all add: length_nodes)
      ultimately have "i = j"
        using assms(2) by (simp only: nth_eq_iff_index_eq)
      with ne show False by simp
    qed
  qed
  then show ?thesis
    by (cases "snd (initializeNetwork p rng)") (simp, metis list.set_intros(1))
qed

theorem zero_threshold_no_edges_witness:
  "proximityThreshold (example_params\<lparr>proximityThreshold := 0\<rparr>) = 0 \<and>
   map (\<lambda>nd. (node_x nd, node_y nd))
     (fst (initializeNetwork (example_params\<lparr>proximityThreshold := 0\<rparr>) example_draws)) =
     [(40, 30), (80, 60), (50, 30)] \<and>
   snd (initializeNetwork (example_params\<lparr>proximityThreshold := 0\<rparr>) example_draws) = []"
proof -
  have pos: "map (\<lambda>nd. (node_x nd, node_y nd))
     (fst (initializeNetwork (example_params\<lparr>proximityThreshold := 0\<rparr>) example_draws)) =
     [(40, 30), (80, 60), (50, 30)]"
    by (simp add: example_params_def example_draws_def run_defs)
  show ?thesis
    using zero_threshold_no_edges [of "example_params\<lparr>proximityThreshold := 0\<rparr>" example_draws]
    by (simp add: pos)
qed

subsection \<open>Order of candidates and of edges\<close>

lemma slice0_take: "\<exists>m. slice0 e xs = take m xs"
  by (auto simp: slice0_def)

lemma sorted_potentialConnections: "sorted_wrt (<) (potentialConnections p ns i)"
proof -
  obtain m where "potentialConnections p ns i = take m (filter (eligible p ns i) [0..<length ns])"
    unfolding potentialConnections_def
    using slice0_take [of "maxConnections p" "filter (eligible p ns i) [0..<length ns]"] ..
  moreover have "sorted_wrt (<) (filter (eligible p ns i) [0..<length ns])"
    by (intro sorted_wrt_filter) simp
  ultimately show ?thesis by (simp add: sorted_wrt_take)
qed

lemma take_lower_closed:
  fixes xs :: "nat list"
  assumes "sorted_wrt (<) xs" "x \<in> set (take m xs)" "y \<in> set xs" "y < x"
  shows "y \<in> set (take m xs)"
proof (rule ccontr)
  assume "y \<notin> set (take m xs)"
  moreover have "set xs = set (take m xs) \<union> set (drop m xs)"
    by (metis append_take_drop_id set_append)
  ultimately have "y \<in> set (drop m xs)" using assms(3) by simp
  moreover have "\<forall>a \<in> set (take m xs). \<forall>b \<in> set (drop m xs). a < b"
    using assms(1) sorted_wrt_append [of "(<)" "take m xs" "drop m xs"] by simp
  ultimately have "x < y" using assms(2) by blast
  with assms(4) show False by simp
qed

lemma potentialConnections_lower_closed:
  assumes "j \<in> set (potentialConnections p ns i)" "k < j" "eligible p ns i k"
  shows "k \<in> set (potentialConnections p ns i)"
proof -
  obtain m where m: "potentialConnections p ns i = take m (filter (eligible p ns i) [0..<length ns])"
    unfolding potentialConnections_def
    using slice0_take [of "maxConnections p" "filter (eligible p ns i) [0..<length ns]"] ..
  have "j < length ns" using assms(1) by (rule potentialConnections_bound)
  with assms(2,3) have k: "k \<in> set (filter (eligible p ns i) [0..<length ns])" by simp
  have sorted: "sorted_wrt (<) (filter (eligible p ns i) [0..<length ns])"
    by (intro sorted_wrt_filter) simp
  from assms(1) have j: "j \<in> set (take m (filter (eligible p ns i) [0..<length ns]))"
    by (simp only: m)
  show ?thesis
    unfolding m by (rule take_lower_closed [OF sorted j k assms(2)])
qed

lemma sorted_wrt_concat_map:
  fixes js :: "nat list"
  assumes "sorted_wrt (<) js"
    and "\<And>a. a \<in> set js \<Longrightarrow> sorted_wrt R (f a)"
    and "\<And>a b x y. a \<in> set js \<Longrightarrow> b \<in> set js \<Longrightarrow> a < b \<Longrightarrow>
           x \<in> set (f a) \<Longrightarrow> y \<in> set (f b) \<Longrightarrow> R x y"
  shows "sorted_wrt R (concat (map f js))"
  using assms
proof (induction js)
  case Nil
  show ?case by simp
next
  case (Cons a js)
  have "sorted_wrt R (concat (map f js))"
  proof (rule Cons.IH)
    show "sorted_wrt (<) js" using Cons.prems(1) by simp
  next
    fix b assume "b \<in> set js"
    then show "sorted_wrt R (f b)" using Cons.prems(2) [of b] by simp
  next
    fix b c x y
    assume "b \<in> set js" "c \<in> set js" "b < c" "x \<in> set (f b)" "y \<in> set (f c)"
    then show "R x y" using Cons.prems(3) [of b c x y] by simp
  qed
  moreover have "sorted_wrt R (f a)" using Cons.prems(2) by simp
  moreover have "R x y" if "x \<in> set (f a)" "y \<in> set (concat (map f js))" for x y
  proof -
    from that(2) obtain b where b: "b \<in> set js" "y \<in> set (f b)" by auto
    with Cons.prems(1) have "a < b" by simp
    with b that(1) show ?thesis by (intro Cons.prems(3) [of a b]) simp_all
  qed
  ultimately show ?case by (simp add: sorted_wrt_append)
qed

lemma edge_pairs_eq:
  "map (\<lambda>e. (edge_from e, edge_to e)) (snd (initializeNetwork p rng)) =
     concat (map (\<lambda>i. map (Pair i) (potentialConnections p (newNodes p rng) i))
       [0..<length (newNodes p rng)])"
proof -
  have "map (\<lambda>e. (edge_from e, edge_to e))
          (map (new_edge (newNodes p rng) i) (potentialConnections p (newNodes p rng) i)) =
        map (Pair i) (potentialConnections p (newNodes p rng) i)"
    if "i < length (newNodes p rng)" for i
    unfolding map_map
    by (rule map_cong) (simp_all add: new_edge_def node_id_newNodes that potentialConnections_bound)
  then have "map (\<lambda>i. map (\<lambda>e. (edge_from e, edge_to e))
            (map (new_edge (newNodes p rng) i) (potentialConnections p (newNodes p rng) i)))
          [0..<length (newNodes p rng)] =
        map (\<lambda>i. map (Pair i) (potentialConnections p (newNodes p rng) i))
          [0..<length (newNodes p rng)]"
    by (intro map_cong) simp_all
  then show ?thesis
    by (simp only: edges_eq map_concat map_map comp_def)
qed

lemma calculateProximity_nodes:
  assumes "i < length (newNodes p rng)" "j < length (newNodes p rng)"
  shows "calculateProximity (fst (initializeNetwork p rng) ! i) (fst (initializeNetwork p rng) ! j)
           = calculateProximity (newNodes p rng ! i) (newNodes p rng ! j)"
  using assms by (simp add: calculateProximity_def position_nodes)

text \<open>
  C6. The \<open>(from, to)\<close> pairs of the edge sequence are obtained by going through the node
  ids \<open>0, 1, 2, ...\<close> and, for each node, taking the first \<open>maxConnections\<close> ids, in
  ascending order, of the other nodes within the threshold.  So the edge sequence is ordered
  by \<open>from\<close> and, for equal \<open>from\<close>, by ascending \<open>to\<close>; and a node that is connected to
  \<open>to\<close> is also connected to every other node with a smaller id that is within the
  threshold, however far it is: the distance decides who is eligible, the id decides who is
  chosen.
\<close>

theorem candidates_in_creation_order:
  "map (\<lambda>e. (edge_from e, edge_to e)) (snd (initializeNetwork p rng)) =
     concat (map (\<lambda>i. map (Pair i)
         (slice0 (maxConnections p)
           (filter (\<lambda>j. j \<noteq> i \<and>
                calculateProximity (fst (initializeNetwork p rng) ! i)
                  (fst (initializeNetwork p rng) ! j) \<le> proximityThreshold p \<and>
                0 < maxConnections p)
             [0..<length (fst (initializeNetwork p rng))])))
       [0..<length (fst (initializeNetwork p rng))]) \<and>
   sorted_wrt (\<lambda>e f. edge_from e < edge_from f \<or>
                  (edge_from e = edge_from f \<and> edge_to e < edge_to f))
     (snd (initializeNetwork p rng)) \<and>
   (\<forall>e \<in> set (snd (initializeNetwork p rng)). \<forall>k < edge_to e.
      k \<noteq> edge_from e \<and>
      calculateProximity (fst (initializeNetwork p rng) ! edge_from e)
        (fst (initializeNetwork p rng) ! k) \<le> proximityThreshold p \<longrightarrow>
      (\<exists>e' \<in> set (snd (initializeNetwork p rng)).
          edge_from e' = edge_from e \<and> edge_to e' = k))"
proof (intro conjI ballI allI impI)
  let ?ns = "newNodes p rng"
  let ?nodes = "fst (initializeNetwork p rng)"
  have "potentialConnections p ?ns i =
          slice0 (maxConnections p)
           (filter (\<lambda>j. j \<noteq> i \<and>
                calculateProximity (?nodes ! i) (?nodes ! j) \<le> proximityThreshold p \<and>
                0 < maxConnections p) [0..<length ?nodes])"
    if i: "i < length ?ns" for i
  proof -
    have "filter (\<lambda>j. j \<noteq> i \<and>
                calculateProximity (?nodes ! i) (?nodes ! j) \<le> proximityThreshold p \<and>
                0 < maxConnections p) [0..<length ?ns] =
          filter (\<lambda>j. j \<noteq> i \<and>
                calculateProximity (?ns ! i) (?ns ! j) \<le> proximityThreshold p \<and>
                0 < maxConnections p) [0..<length ?ns]"
      by (rule filter_cong) (simp_all add: calculateProximity_nodes i)
    then show ?thesis
      by (simp add: potentialConnections_newNodes [OF i] length_nodes)
  qed
  then have "map (\<lambda>i. map (Pair i) (potentialConnections p ?ns i)) [0..<length ?ns] =
        map (\<lambda>i. map (Pair i)
         (slice0 (maxConnections p)
           (filter (\<lambda>j. j \<noteq> i \<and>
                calculateProximity (?nodes ! i) (?nodes ! j) \<le> proximityThreshold p \<and>
                0 < maxConnections p) [0..<length ?nodes]))) [0..<length ?ns]"
    by (intro map_cong) simp_all
  then show "map (\<lambda>e. (edge_from e, edge_to e)) (snd (initializeNetwork p rng)) =
     concat (map (\<lambda>i. map (Pair i)
         (slice0 (maxConnections p)
           (filter (\<lambda>j. j \<noteq> i \<and>
                calculateProximity (?nodes ! i) (?nodes ! j) \<le> proximityThreshold p \<and>
                0 < maxConnections p) [0..<length ?nodes]))) [0..<length ?nodes])"
    by (simp only: edge_pairs_eq length_nodes)
next
  let ?ns = "newNodes p rng"
  let ?R = "\<lambda>e f. edge_from e < edge_from f \<or> (edge_from e = edge_from f \<and> edge_to e < edge_to f)"
  show "sorted_wrt ?R (snd (initializeNetwork p rng))"
    unfolding edges_eq
  proof (rule sorted_wrt_concat_map)
    show "sorted_wrt (<) [0..<length ?ns]" by simp
  next
    fix a
    assume "a \<in> set [0..<length ?ns]"
    then have a: "a < length ?ns" by simp
    have "sorted_wrt (\<lambda>j k. ?R (new_edge ?ns a j) (new_edge ?ns a k)) (potentialConnections p ?ns a)"
    proof (rule sorted_wrt_mono_rel [OF _ sorted_potentialConnections])
      fix j k
      assume "j \<in> set (potentialConnections p ?ns a)" "k \<in> set (potentialConnections p ?ns a)"
        "j < k"
      then show "?R (new_edge ?ns a j) (new_edge ?ns a k)"
        by (simp add: new_edge_newNodes a potentialConnections_bound)
    qed
    then show "sorted_wrt ?R (map (new_edge ?ns a) (potentialConnections p ?ns a))"
      by (simp add: sorted_wrt_map)
  next
    fix a b x y
    assume "a \<in> set [0..<length ?ns]" "b \<in> set [0..<length ?ns]" "a < b"
      "x \<in> set (map (new_edge ?ns a) (potentialConnections p ?ns a))"
      "y \<in> set (map (new_edge ?ns b) (potentialConnections p ?ns b))"
    then show "?R x y"
      by (auto simp: new_edge_def node_id_newNodes)
  qed
next
  fix e k
  let ?ns = "newNodes p rng"
  assume e: "e \<in> set (snd (initializeNetwork p rng))" and k: "k < edge_to e"
    and near: "k \<noteq> edge_from e \<and>
      calculateProximity (fst (initializeNetwork p rng) ! edge_from e)
        (fst (initializeNetwork p rng) ! k) \<le> proximityThreshold p"
  from e obtain i j where i: "i < length ?ns"
    and j: "j \<in> set (potentialConnections p ?ns i)"
    and e_eq: "e = new_edge ?ns i j"
    by (auto simp: edges_eq)
  from j have j': "j < length ?ns" by (rule potentialConnections_bound)
  from j have el: "eligible p ?ns i j" by (rule potentialConnections_eligible)
  have ends: "edge_from e = i" "edge_to e = j"
    using i j' by (simp_all add: e_eq new_edge_newNodes)
  from k j' have k': "k < length ?ns" by (simp add: ends)
  have "eligible p ?ns i k"
    using near el i j' k' by (simp add: eligible_newNodes ends calculateProximity_nodes)
  with j k have "k \<in> set (potentialConnections p ?ns i)"
    unfolding ends by (rule potentialConnections_lower_closed)
  with i have "new_edge ?ns i k \<in> set (snd (initializeNetwork p rng))"
    by (auto simp: edges_eq)
  moreover have "edge_from (new_edge ?ns i k) = edge_from e \<and> edge_to (new_edge ?ns i k) = k"
    using i k' by (simp add: new_edge_newNodes ends)
  ultimately show "\<exists>e' \<in> set (snd (initializeNetwork p rng)).
          edge_from e' = edge_from e \<and> edge_to e' = k"
    by blast
qed

lemma example_nodes:
  "fst (initializeNetwork example_params example_draws) =
     [\<lparr>node_id = 0, node_x = 40, node_y = 30, resources = 50, connections = [1],
        color = ''rgb(100, 50, 0)''\<rparr>,
       \<lparr>node_id = 1, node_x = 80, node_y = 60, resources = 50, connections = [0],
        color = ''rgb(100, 50, 0)''\<rparr>,
       \<lparr>node_id = 2, node_x = 50, node_y = 30, resources = 50, connections = [0],
        color = ''rgb(100, 50, 0)''\<rparr>]"
  by (simp add: example_network)

lemma example_length: "length (fst (initializeNetwork example_params example_draws)) = 3"
  by (simp add: example_nodes)

lemma example_params_fields:
  "numNodes example_params = 3" "proximityThreshold example_params = 50"
  "maxConnections example_params = 1" "resourceCapacity example_params = 100"
  by (simp_all add: example_params_def)

lemma upt_3: "[0..<3] = [0, 1, 2]"
  by (simp add: upt_rec)

text \<open>
  In the concrete run node 0 is connected to node 1, at distance 50, and not to node 2, at
  distance 10.
\<close>

theorem candidates_in_creation_order_witness:
  "map (\<lambda>e. (edge_from e, edge_to e)) (snd (initializeNetwork example_params example_draws)) =
     concat [map (Pair 0) (slice0 1 [1, 2]), map (Pair 1) (slice0 1 [0, 2]),
             map (Pair 2) (slice0 1 [0, 1])] \<and>
   calculateProximity (fst (initializeNetwork example_params example_draws) ! 0)
       (fst (initializeNetwork example_params example_draws) ! 2) = 10 \<and>
   calculateProximity (fst (initializeNetwork example_params example_draws) ! 0)
       (fst (initializeNetwork example_params example_draws) ! 1) = 50"
proof -
  have "map (\<lambda>e. (edge_from e, edge_to e)) (snd (initializeNetwork example_params example_draws)) =
     concat [map (Pair 0) (slice0 1 [1, 2]), map (Pair 1) (slice0 1 [0, 2]),
             map (Pair 2) (slice0 1 [0, 1])]"
    using candidates_in_creation_order [of example_params example_draws, THEN conjunct1]
    apply (simp only: example_length upt_3 list.map)
    apply (simp add: example_nodes example_params_fields calculateProximity_le_iff slice0_def)
    done
  then show ?thesis
    by (simp add: example_nodes calculateProximity_eq_iff)
qed

subsection \<open>Three nodes, an unlimited threshold and two connections each\<close>

lemma three_node_params_fields:
  "numNodes three_node_params = 3" "proximityThreshold three_node_params = 1000"
  "maxConnections three_node_params = 2" "resourceCapacity three_node_params = 100"
  by (simp_all add: three_node_params_def)

lemma three_nodes_candidates:
  assumes "unit_draws rng" "i < 3"
  shows "potentialConnections three_node_params (newNodes three_node_params rng) i =
           take 2 (filter (\<lambda>j. j \<noteq> i) [0, 1, 2])"
proof -
  let ?ns = "newNodes three_node_params rng"
  have len: "length ?ns = 3" by (simp add: length_newNodes three_node_params_fields)
  have "filter (\<lambda>j. j \<noteq> i \<and>
            calculateProximity (?ns ! i) (?ns ! j) \<le> proximityThreshold three_node_params \<and>
            0 < maxConnections three_node_params) [0..<length ?ns] =
        filter (\<lambda>j. j \<noteq> i) [0..<length ?ns]"
  proof (rule filter_cong)
    fix j
    assume "j \<in> set [0..<length ?ns]"
    then have j: "j < length ?ns" by simp
    have "calculateProximity (?ns ! i) (?ns ! j) < 500"
      using assms(1) _ j by (rule distance_newNodes) (simp add: len assms(2))
    then show "(j \<noteq> i \<and>
            calculateProximity (?ns ! i) (?ns ! j) \<le> proximityThreshold three_node_params \<and>
            0 < maxConnections three_node_params) = (j \<noteq> i)"
      by (simp add: three_node_params_fields)
  qed simp
  moreover have "i < length ?ns" using assms(2) by (simp add: len)
  ultimately have "potentialConnections three_node_params ?ns i =
      slice0 (maxConnections three_node_params) (filter (\<lambda>j. j \<noteq> i) [0..<length ?ns])"
    by (simp only: potentialConnections_newNodes)
  then show ?thesis
    by (simp add: len upt_3 slice0_def three_node_params_fields)
qed

text \<open>
  C7. With three nodes, a threshold of 1000, at most two connections per node and a resource
  capacity of 100, and draws in the half-open unit interval, every node is connected to the
  two other nodes: the edges are 0-1, 0-2, 1-0, 1-2, 2-0 and 2-1 in this order, six in all,
  and every node is the \<open>from\<close> end of exactly two of them, which is its cap.
\<close>

theorem three_nodes_fully_connected:
  assumes "unit_draws rng"
  shows "map (\<lambda>e. (edge_from e, edge_to e)) (snd (initializeNetwork three_node_params rng)) =
           [(0, 1), (0, 2), (1, 0), (1, 2), (2, 0), (2, 1)] \<and>
         length (snd (initializeNetwork three_node_params rng)) = 6 \<and>
         length (fst (initializeNetwork three_node_params rng)) = 3 \<and>
         (\<forall>nd \<in> set (fst (initializeNetwork three_node_params rng)).
            length (filter (\<lambda>e. edge_from e = node_id nd)
              (snd (initializeNetwork three_node_params rng))) = 2 \<and>
            int (length (connections nd)) \<le> maxConnections three_node_params)"
proof -
  let ?ns = "newNodes three_node_params rng"
  have len: "length ?ns = 3" by (simp add: length_newNodes three_node_params_fields)
  have c0: "potentialConnections three_node_params ?ns 0 = [1, 2]"
    by (simp add: three_nodes_candidates [OF assms])
  have c1: "potentialConnections three_node_params ?ns (Suc 0) = [0, 2]"
    by (simp add: three_nodes_candidates [OF assms])
  have c2: "potentialConnections three_node_params ?ns 2 = [0, 1]"
    by (simp add: three_nodes_candidates [OF assms])
  have pairs: "map (\<lambda>e. (edge_from e, edge_to e)) (snd (initializeNetwork three_node_params rng)) =
           [(0, 1), (0, 2), (1, 0), (1, 2), (2, 0), (2, 1)]"
    by (simp add: edge_pairs_eq len upt_3 c0 c1 c2)
  have "length (map (\<lambda>e. (edge_from e, edge_to e)) (snd (initializeNetwork three_node_params rng))) = 6"
    by (simp only: pairs) simp
  then have six: "length (snd (initializeNetwork three_node_params rng)) = 6" by simp
  have two: "length (filter (\<lambda>e. edge_from e = node_id nd)
              (snd (initializeNetwork three_node_params rng))) = 2 \<and>
            int (length (connections nd)) \<le> maxConnections three_node_params"
    if "nd \<in> set (fst (initializeNetwork three_node_params rng))" for nd
    using that
  proof (rule set_nodes_cases)
    fix j
    assume j: "j < length ?ns" and nd: "nd = fst (initializeNetwork three_node_params rng) ! j"
    have id: "node_id nd = j" using j nd by (simp add: nth_nodes node_id_newNodes)
    have conn: "connections nd = potentialConnections three_node_params ?ns j"
      using j nd by (simp add: nth_nodes)
    from j have "j = 0 \<or> j = Suc 0 \<or> j = 2" by (simp add: len) arith
    then have "length (potentialConnections three_node_params ?ns j) = 2"
      using c0 c1 c2 by auto
    then show ?thesis
      using j by (simp add: id conn outgoing_edges three_node_params_fields)
  qed
  from pairs six two show ?thesis by (simp add: length_nodes len)
qed

theorem three_nodes_fully_connected_witness:
  "unit_draws example_draws \<and>
   map (\<lambda>e. (edge_from e, edge_to e)) (snd (initializeNetwork three_node_params example_draws)) =
     [(0, 1), (0, 2), (1, 0), (1, 2), (2, 0), (2, 1)] \<and>
   length (snd (initializeNetwork three_node_params example_draws)) = 6"
  using three_nodes_fully_connected [of example_draws] unit_draws_example
  by simp

end
